theory Spec2Isabelle
  imports Main "HOL-Library.Word" "HOL-Library.Char_ord" "HOL-Library.List_Lexorder"
begin

section \<open>efiver.py: data model\<close>

text \<open>
  Bytes read from a firmware image are 8-bit words. Python text (\<open>str\<close>) is a list of
  characters; a \<open>char\<close> stands for the code point of the same number, so the model
  covers text whose code points are below 256 (the firmware records, file names and
  table entries of the script are ASCII).
\<close>

type_synonym byte = "8 word"

datatype error = OSError | IndexError | UnicodeDecodeError | BeyondLatin1

subsection \<open>Python string helpers\<close>

text \<open>\<open>s.startswith(p)\<close>\<close>

definition startswith :: "string \<Rightarrow> string \<Rightarrow> bool" where
  "startswith s p = (take (length p) s = p)"

text \<open>\<open>s.split(sep)\<close> for a one-character separator: never an empty list.\<close>

fun split_str :: "char \<Rightarrow> string \<Rightarrow> string list" where
  "split_str sep [] = [[]]"
| "split_str sep (c # cs) =
     (if c = sep then [] # split_str sep cs
      else (case split_str sep cs of
              [] \<Rightarrow> [[c]]
            | w # ws \<Rightarrow> (c # w) # ws))"

text \<open>\<open>xs[i]\<close> for \<open>i \<ge> 0\<close>: IndexError out of range.\<close>

definition item :: "'a list \<Rightarrow> nat \<Rightarrow> error + 'a" where
  "item xs i = (if i < length xs then Inr (xs ! i) else Inl IndexError)"

text \<open>The slices \<open>s[:x]\<close> and \<open>s[x:]\<close>; a negative index counts from the end.\<close>

definition slice_upto :: "'a list \<Rightarrow> int \<Rightarrow> 'a list" where
  "slice_upto s x = (if x < 0 then take (nat (int (length s) + x)) s else take (nat x) s)"

definition slice_from :: "'a list \<Rightarrow> int \<Rightarrow> 'a list" where
  "slice_from s x = (if x < 0 then drop (nat (int (length s) + x)) s else drop (nat x) s)"

text \<open>
  \<open>c.isdigit()\<close> on code points below 256: the ASCII digits and the superscript
  digits U+00B2, U+00B3, U+00B9.
\<close>

definition isdigit :: "char \<Rightarrow> bool" where
  "isdigit c = ((48 \<le> (of_char c :: nat) \<and> (of_char c :: nat) \<le> 57)
                \<or> (of_char c :: nat) \<in> {178, 179, 185})"

section \<open>class Model\<close>

text \<open>
  \<open>Model.getID\<close>, lines 440-461. The chain is written in the order of the source:
  an \<open>if\<close> on \<open>IM\<close> first, then \<open>IMP\<close>, \<open>MBP\<close>, \<open>MBA\<close>, \<open>MB\<close>, \<open>MM\<close>, \<open>MP\<close>.
\<close>

definition getID :: "string \<Rightarrow> string" where
  "getID ident =
     (let number = filter isdigit ident;
          x = int (length number) - 1
      in if startswith ident ''IM'' then
           ''iMac'' @ slice_upto number x @ '','' @ slice_from number (- 1)
         else if startswith ident ''IMP'' then
           ''iMacPro'' @ slice_upto number x @ '','' @ slice_from number (- 1)
         else if startswith ident ''MBP'' then
           ''MacBookPro'' @ slice_upto number x @ '','' @ slice_from number (- 1)
         else if startswith ident ''MBA'' then
           ''MacBookAir'' @ slice_upto number x @ '','' @ slice_from number (- 1)
         else if startswith ident ''MB'' then
           ''MacBook'' @ slice_upto number x @ '','' @ slice_from number (- 1)
         else if startswith ident ''MM'' then
           ''Macmini'' @ slice_upto number x @ '','' @ slice_from number (- 1)
         else if startswith ident ''MP'' then
           ''MacPro'' @ slice_upto number x @ '','' @ slice_from number (- 1)
         else ''Unknown'')"

text \<open>\<open>Model.getByBoardID\<close>, lines 463-469: the first row whose identifier matches.\<close>

fun getByBoardID_loop :: "(string \<times> string) list \<Rightarrow> string \<Rightarrow> string" where
  "getByBoardID_loop [] boardID = ''Unknown''"
| "getByBoardID_loop (x # xs) boardID =
     (if boardID = fst x then snd x else getByBoardID_loop xs boardID)"

section \<open>The static tables\<close>

text \<open>\<open>oldStyleFWModels\<close>, lines 105-110.\<close>

definition oldStyleFWModels :: "string list" where
  "oldStyleFWModels =
  [''MB51'', ''MB52'', ''MB61'', ''MB71'', ''MBP41'', ''MBP51'', ''MBP52'', ''MBP53'',
   ''MBP55'', ''MBP61'', ''MBP71'', ''MBP81'', ''MBP91'', ''MBP101'', ''MBP102'', ''MBA21'',
   ''MBA31'', ''MBA41'', ''MBA51'', ''IM81'', ''IM91'', ''IM101'', ''IM111'', ''IM112'',
   ''IM121'', ''IM131'', ''MM32'', ''MM41'', ''MM51'', ''MM61'', ''MP51'', ''MP61'']"

text \<open>\<open>boardIDModelIDs\<close>, lines 112-190: rows \<open>[board-id, model]\<close> as pairs, in file order.\<close>

definition boardIDModelIDs :: "(string \<times> string) list" where
  "boardIDModelIDs =
  [
   (''Mac-F22C8AC8'', ''MacBook6,1''),
   (''Mac-F22C89C8'', ''MacBook7,1''),
   (''Mac-BE0E8AC46FE800CC'', ''MacBook8,1''),
   (''Mac-F305150B0C7DEEEF'', ''MacBook8,x''),
   (''Mac-9AE82516C7C6B903'', ''MacBook9,1''),
   (''Mac-EE2EBD4B90B839A8'', ''MacBook10,1''),
   (''Mac-F22589C8'', ''MacBookPro6,1''),
   (''Mac-F22586C8'', ''MacBookPro6,2''),
   (''Mac-F222BEC8'', ''MacBookPro7,1''),
   (''Mac-94245B3640C91C81'', ''MacBookPro8,1''),
   (''Mac-94245A3940C91C80'', ''MacBookPro8,2''),
   (''Mac-942459F5819B171B'', ''MacBookPro8,3''),
   (''Mac-4B7AC7E43945597E'', ''MacBookPro9,1''),
   (''Mac-6F01561E16C75D06'', ''MacBookPro9,2''),
   (''Mac-C3EC7CD22292981F'', ''MacBookPro10,1''),
   (''Mac-AFD8A9D944EA4843'', ''MacBookPro10,2''),
   (''Mac-189A3D4F975D5FFC'', ''MacBookPro11,1''),
   (''Mac-D1FF70AF6D8C849A'', ''MacBookPro11,x''),
   (''Mac-3CBD00234E554E41'', ''MacBookPro11,2''),
   (''Mac-2BD1B31983FE1663'', ''MacBookPro11,3''),
   (''Mac-06F11FD93F0323C5'', ''MacBookPro11,4''),
   (''Mac-06F11F11946D27C5'', ''MacBookPro11,5''),
   (''Mac-E43C1C25D4880AD6'', ''MacBookPro12,1''),
   (''Mac-473D31EABEB93F9B'', ''MacBookPro13,1''),
   (''Mac-66E35819EE2D0D05'', ''MacBookPro13,2''),
   (''Mac-1BDAB09B689867E2'', ''MacBookPro13,x''),
   (''Mac-A5C67F76ED83108C'', ''MacBookPro13,3''),
   (''Mac-B4831CEBD52A0C4C'', ''MacBookPro14,1''),
   (''Mac-CAD6701F7CEA0921'', ''MacBookPro14,2''),
   (''Mac-551B86E5744E2388'', ''MacBookPro14,3''),
   (''Mac-942452F5819B1C1B'', ''MacBookAir3,1''),
   (''Mac-942C5DF58193131B'', ''MacBookAir3,2''),
   (''Mac-C08A6BB70A942AC2'', ''MacBookAir4,1''),
   (''Mac-742912EFDBEE19B3'', ''MacBookAir4,2''),
   (''Mac-66F35F19FE2A0D05'', ''MacBookAir5,1''),
   (''Mac-2E6FAB96566FE58C'', ''MacBookAir5,2''),
   (''Mac-35C1E88140C3E6CF'', ''MacBookAir6,1''),
   (''Mac-7DF21CB3ED6977E5'', ''MacBookAir6,2''),
   (''Mac-9F18E312C5C2BF0B'', ''MacBookAir7,1''),
   (''Mac-937CB26E2E02BB01'', ''MacBookAir7,2''),
   (''Mac-F2268CC8'', ''iMac10,1''),
   (''Mac-F2268DAE'', ''iMac11,1''),
   (''Mac-F2238AC8'', ''iMac11,2''),
   (''Mac-F2238BAE'', ''iMac11,3''),
   (''Mac-942B5BF58194151B'', ''iMac12,1''),
   (''Mac-942B59F58194171B'', ''iMac12,2''),
   (''Mac-00BE6ED71E35EB86'', ''iMac13,1''),
   (''Mac-FC02E91DDD3FA6A4'', ''iMac13,2''),
   (''Mac-7DF2A3B5E5D671ED'', ''iMac13,3''),
   (''Mac-031B6874CF7F642A'', ''iMac14,1''),
   (''Mac-27ADBB7B4CEE8E61'', ''iMac14,2''),
   (''Mac-77EB7D7DAF985301'', ''iMac14,3''),
   (''Mac-81E3E92DD6088272'', ''iMac14,4''),
   (''Mac-FA842E06C61E91C5'', ''iMac15,1''),
   (''Mac-42FD25EABCABB274'', ''iMac15,1''),
   (''Mac-A369DDC4E67F1C45'', ''iMac16,1''),
   (''Mac-FFE5EF870D7BA81A'', ''iMac16,2''),
   (''Mac-DB15BD556843C820'', ''iMac17,1''),
   (''Mac-65CE76090165799A'', ''iMac17,1''),
   (''Mac-B809C3757DA9BB8D'', ''iMac17,1''),
   (''Mac-4B682C642B45593E'', ''iMac18,1''),
   (''Mac-77F17D7DA9285301'', ''iMac18,2''),
   (''Mac-BE088AF8C5EB4FA2'', ''iMac18,3''),
   (''Mac-F2208EC8'', ''Macmini4,1''),
   (''Mac-8ED6AF5B48C039E1'', ''Macmini5,1''),
   (''Mac-4BC72D62AD45599E'', ''Macmini5,2''),
   (''Mac-7BA5B2794B2CDB12'', ''Macmini5,3''),
   (''Mac-031AEE4D24BFF0B1'', ''Macmini6,1''),
   (''Mac-F65AE981FFA204ED'', ''Macmini6,2''),
   (''Mac-35C5E08120C7EEAF'', ''Macmini7,1''),
   (''Mac-F221BEC8'', ''MacPro4,1''),
   (''Mac-F221DCC8'', ''MacPro5,1''),
   (''Mac-F60DEB81FF30ACF6'', ''MacPro6,1''),
   (''Mac-7BA5B2D9E42DDD94'', ''iMacPro1,1''),
   (''Mac-CF21D135A7D34AA6'', ''Unknown''),
   (''Mac-112B0A653D3AAB9C'', ''Unknown''),
   (''Mac-90BE64C3CB5A9AEB'', ''Unknown'')
  ]"

definition getByBoardID :: "string \<Rightarrow> string" where
  "getByBoardID boardID = getByBoardID_loop boardIDModelIDs boardID"

section \<open>The firmware image as a file object\<close>

text \<open>
  A file opened with \<open>io.open(name, 'rb')\<close>: its bytes and the read position.
  \<open>f.seek(p, 0)\<close> raises OSError for a negative \<open>p\<close> and accepts any other one;
  \<open>f.read(n)\<close> returns the bytes left from the read position, at most \<open>n\<close> (none at the
  end of the file), and moves the position past them.
\<close>

record binfile =
  content :: "byte list"
  cursor :: nat

definition seek :: "binfile \<Rightarrow> int \<Rightarrow> error + binfile" where
  "seek f position =
     (if position < 0 then Inl OSError else Inr (f\<lparr>cursor := nat position\<rparr>))"

definition read :: "binfile \<Rightarrow> nat \<Rightarrow> byte list \<times> binfile" where
  "read f n =
     (let bs = take n (drop (cursor f) (content f))
      in (bs, f\<lparr>cursor := cursor f + length bs\<rparr>))"

text \<open>What \<open>f.read(n)\<close> returns right after \<open>f.seek(position, 0)\<close>, \<open>position \<ge> 0\<close>.\<close>

definition bytes_at :: "binfile \<Rightarrow> int \<Rightarrow> nat \<Rightarrow> byte list" where
  "bytes_at f position n = take n (drop (nat position) (content f))"

subsection \<open>binascii.hexlify and str.upper\<close>

definition hexdigit :: "nat \<Rightarrow> char" where
  "hexdigit n = ''0123456789abcdef'' ! n"

text \<open>
  \<open>binascii.hexlify(bs)\<close>: two lower-case hexadecimal digits for each byte. The digits
  are ASCII, so the bytes object and its \<open>.decode('utf-8')\<close> are the same characters.
\<close>

definition hexlify :: "byte list \<Rightarrow> string" where
  "hexlify bs = concat (map (\<lambda>b. [hexdigit (unat b div 16), hexdigit (unat b mod 16)]) bs)"

text \<open>\<open>s.upper()\<close> on ASCII text (the script applies it to hexadecimal digits only).\<close>

definition upper :: "string \<Rightarrow> string" where
  "upper s = map (\<lambda>c. if CHR ''a'' \<le> c \<and> c \<le> CHR ''z''
                        then char_of (of_char c - (32 :: nat)) else c) s"

subsection \<open>bytes.decode('utf-8')\<close>

text \<open>
  Strict UTF-8 decoding to code points: \<open>None\<close> is UnicodeDecodeError (a stray or
  missing continuation byte, an overlong form, a surrogate, a value above U+10FFFF).
\<close>

definition cont :: "byte \<Rightarrow> bool" where
  "cont b = (0x80 \<le> b \<and> b \<le> 0xBF)"

fun utf8_decode :: "byte list \<Rightarrow> nat list option" where
  "utf8_decode [] = Some []"
| "utf8_decode (b0 # rest) =
     (if b0 < 0x80 then map_option (\<lambda>cs. unat b0 # cs) (utf8_decode rest)
      else if 0xC2 \<le> b0 \<and> b0 \<le> 0xDF then
        (case rest of
           b1 # r \<Rightarrow>
             if cont b1
             then map_option (\<lambda>cs. ((unat b0 - 0xC0) * 64 + (unat b1 - 0x80)) # cs)
                    (utf8_decode r)
             else None
         | _ \<Rightarrow> None)
      else if 0xE0 \<le> b0 \<and> b0 \<le> 0xEF then
        (case rest of
           b1 # b2 # r \<Rightarrow>
             if cont b1 \<and> cont b2 \<and> (b0 = 0xE0 \<longrightarrow> 0xA0 \<le> b1) \<and> (b0 = 0xED \<longrightarrow> b1 \<le> 0x9F)
             then map_option
                    (\<lambda>cs. ((unat b0 - 0xE0) * 4096 + (unat b1 - 0x80) * 64 + (unat b2 - 0x80)) # cs)
                    (utf8_decode r)
             else None
         | _ \<Rightarrow> None)
      else if 0xF0 \<le> b0 \<and> b0 \<le> 0xF4 then
        (case rest of
           b1 # b2 # b3 # r \<Rightarrow>
             if cont b1 \<and> cont b2 \<and> cont b3 \<and> (b0 = 0xF0 \<longrightarrow> 0x90 \<le> b1)
                \<and> (b0 = 0xF4 \<longrightarrow> b1 \<le> 0x8F)
             then map_option
                    (\<lambda>cs. ((unat b0 - 0xF0) * 262144 + (unat b1 - 0x80) * 4096
                            + (unat b2 - 0x80) * 64 + (unat b3 - 0x80)) # cs)
                    (utf8_decode r)
             else None
         | _ \<Rightarrow> None)
      else None)"

text \<open>
  The decoded text as a \<open>string\<close>. A code point from U+0100 on does not fit a \<open>char\<close>:
  \<open>BeyondLatin1\<close> marks such a text, which Python returns and this model does not
  represent.
\<close>

definition decode :: "byte list \<Rightarrow> error + string" where
  "decode bs =
     (case utf8_decode bs of
        None \<Rightarrow> Inl UnicodeDecodeError
      | Some cps \<Rightarrow>
          if list_all (\<lambda>cp. cp < 256) cps then Inr (map char_of cps) else Inl BeyondLatin1)"

section \<open>class EFI\<close>

text \<open>
  \<open>EFI.shouldWarnAboutUpdate\<close>, lines 366-374. \<open>system\<close> is the value of
  \<open>platform.system()\<close>. \<open>split('.')[4]\<close> raises IndexError on fewer than five fields.
\<close>

definition shouldWarnAboutUpdate :: "string \<Rightarrow> string \<Rightarrow> string \<Rightarrow> error + bool" where
  "shouldWarnAboutUpdate system rawVersion biosID =
     (if system = ''Darwin'' then
        (case item (split_str CHR ''.'' rawVersion) 4 of
           Inl e \<Rightarrow> Inl e
         | Inr myBiosDate \<Rightarrow>
            (case item (split_str CHR ''.'' biosID) 4 of
               Inl e \<Rightarrow> Inl e
             | Inr d \<Rightarrow>
                 (let biosDate = filter (\<lambda>c. c \<noteq> CHR 0x00) d
                  in if myBiosDate < biosDate then Inr True else Inr False)))
      else Inr False)"

text \<open>The marker \<open>$IBIOSI$\<close>, line 382.\<close>

definition IBIOSI :: "byte list" where
  "IBIOSI = [0x24, 0x49, 0x42, 0x49, 0x4F, 0x53, 0x49, 0x24]"

text \<open>
  The two loops of \<open>EFI.getVersion\<close>, lines 380-389. Each returns the position at which
  the marker was read and the file, whose read position is then just after the marker.
  The backward loop ends: the position decreases and a negative one makes \<open>seek\<close>
  raise. The forward loop has no bound; not returning is \<open>None\<close>.
\<close>

function getVersion_backward :: "binfile \<Rightarrow> int \<Rightarrow> error + (int \<times> binfile)" where
  "getVersion_backward f position =
     (case read f 8 of
        (bs, f1) \<Rightarrow>
          if bs = IBIOSI then Inr (position, f1)
          else (case seek f1 (position - 4) of
                  Inl e \<Rightarrow> Inl e
                | Inr f2 \<Rightarrow> getVersion_backward f2 (position - 4)))"
  by pat_completeness auto
termination
  by (relation "measure (\<lambda>(f, position). nat position)")
     (auto simp: seek_def split: if_splits)

partial_function (option) getVersion_forward :: "binfile \<Rightarrow> int \<Rightarrow> (error + (int \<times> binfile)) option"
  where
  "getVersion_forward f position =
     (case read f 8 of
        (bs, f1) \<Rightarrow>
          if bs = IBIOSI then Some (Inr (position, f1))
          else (case seek f1 (position + 4) of
                  Inl e \<Rightarrow> Some (Inl e)
                | Inr f2 \<Rightarrow> getVersion_forward f2 (position + 4)))"

text \<open>\<open>EFI.getVersion\<close>, lines 376-393.\<close>

definition getVersion :: "binfile \<Rightarrow> int \<Rightarrow> (error + string) option" where
  "getVersion f position =
     (case seek f position of
        Inl e \<Rightarrow> Some (Inl e)
      | Inr f0 \<Rightarrow>
          (case (if position > 4096 then Some (getVersion_backward f0 position)
                 else getVersion_forward f0 position) of
             None \<Rightarrow> None
           | Some (Inl e) \<Rightarrow> Some (Inl e)
           | Some (Inr (p, f1)) \<Rightarrow> Some (decode (fst (read f1 0x41)))))"

text \<open>
  The position of \<open>getVersion\<close> after \<open>k\<close> steps of its loop: 4 bytes down each step
  from a start beyond 4096, 4 bytes up otherwise.
\<close>

definition scan_position :: "int \<Rightarrow> nat \<Rightarrow> int" where
  "scan_position start k = (if start > 4096 then start - 4 * int k else start + 4 * int k)"

section \<open>class BoardID\<close>

text \<open>
  \<open>BoardID.getIDs\<close>, lines 407-428. The loop runs while \<open>count > 1\<close>, from 15 down:
  at most 14 rounds.
\<close>

fun getIDs_loop :: "nat \<Rightarrow> binfile \<Rightarrow> int \<Rightarrow> bool \<Rightarrow> string list \<Rightarrow> error + string list" where
  "getIDs_loop count f position trailingBytes boardIDs =
     (if count > 1 then
        (case seek f (position + 8) of
           Inl e \<Rightarrow> Inl e
         | Inr f1 \<Rightarrow>
            (case read f1 8 of
               (boardID, f2) \<Rightarrow>
                 if boardID = [0xFF, 0xFF, 0xFF, 0xFF, 0xFF, 0xFF, 0xFF, 0xFF] then Inr boardIDs
                 else getIDs_loop (count - 1) f2
                        (if trailingBytes then position + 8 + 2 else position + 8)
                        trailingBytes
                        (boardIDs @ [''Mac-'' @ upper (hexlify boardID)])))
      else Inr boardIDs)"

definition getIDs :: "binfile \<Rightarrow> int \<Rightarrow> bool \<Rightarrow> error + string list" where
  "getIDs f position trailingBytes =
     (case seek f (position + 20) of
        Inl e \<Rightarrow> Inl e
      | Inr f1 \<Rightarrow> getIDs_loop 15 f1 (position + 20) trailingBytes [])"

text \<open>
  The bytes \<open>getIDs\<close> reads in round \<open>i\<close> (from 0): the first code is 28 bytes after
  the anchor, the next ones 8 bytes further each, 10 with \<open>trailingBytes\<close>.
\<close>

definition slot :: "binfile \<Rightarrow> int \<Rightarrow> bool \<Rightarrow> nat \<Rightarrow> byte list" where
  "slot f position trailingBytes i =
     take 8 (drop (nat (position + 28 + (if trailingBytes then 10 else 8) * int i)) (content f))"

text \<open>\<open>BoardID.getByModelID\<close>, lines 430-436: the first row whose model matches.\<close>

fun getByModelID_loop :: "(string \<times> string) list \<Rightarrow> string \<Rightarrow> string" where
  "getByModelID_loop [] modelID = ''Unknown''"
| "getByModelID_loop (x # xs) modelID =
     (if modelID = snd x then fst x else getByModelID_loop xs modelID)"

definition getByModelID :: "string \<Rightarrow> string" where
  "getByModelID modelID = getByModelID_loop boardIDModelIDs modelID"

section \<open>class GUID\<close>

text \<open>\<open>GUID.shouldPerformCheck\<close>, lines 473-479.\<close>

definition shouldPerformCheck :: "string \<Rightarrow> bool" where
  "shouldPerformCheck filename =
     (let ident = hd (split_str CHR ''_'' filename)
      in if ident \<in> set oldStyleFWModels then False else True)"

text \<open>The three Apple UUIDs as \<open>hexlify\<close> prints them, lines 487, 495 and 501.\<close>

definition uuid_legacy :: string where
  "uuid_legacy = ''096de3c39482974ba857d5288fe33e28''"

definition uuid_781F :: string where
  "uuid_781F = ''4a251f7857c4135d92751bf5d56e0724''"

definition uuid_1138 :: string where
  "uuid_1138 = ''f90f3811bfcfd55c997e83fd089569f0''"

text \<open>
  The loop of the MP51 branch, lines 487-490. The first read is at the read position
  the caller left. The test on \<open>filesize - 8\<close> guards the advance only: once it is false
  the loop goes on reading from where the last read ended.
\<close>

partial_function (option) search_legacy :: "binfile \<Rightarrow> int \<Rightarrow> int \<Rightarrow> (error + int) option" where
  "search_legacy f filesize position =
     (case read f 16 of
        (bs, f1) \<Rightarrow>
          if hexlify bs = uuid_legacy then Some (Inr position)
          else if position < filesize - 8 then
            (case seek f1 (position + 4) of
               Inl e \<Rightarrow> Some (Inl e)
             | Inr f2 \<Rightarrow> search_legacy f2 filesize (position + 4))
          else search_legacy f1 filesize position)"

text \<open>The closing loop of the other branch, lines 513-516.\<close>

partial_function (option) search_fallback :: "binfile \<Rightarrow> int \<Rightarrow> (error + int) option" where
  "search_fallback f position =
     (case read f 16 of
        (bs, f1) \<Rightarrow>
          if hexlify bs = uuid_781F then Some (Inr position)
          else if position > 8 then
            (case seek f1 (position - 4) of
               Inl e \<Rightarrow> Some (Inl e)
             | Inr f2 \<Rightarrow> search_fallback f2 (position - 4))
          else search_fallback f1 position)"

text \<open>One fixed candidate: seek, read 16 bytes, compare (lines 492-508).\<close>

definition matches_at :: "binfile \<Rightarrow> int \<Rightarrow> string \<Rightarrow> error + bool" where
  "matches_at f position uuid =
     (case seek f position of
        Inl e \<Rightarrow> Inl e
      | Inr f1 \<Rightarrow> Inr (hexlify (fst (read f1 16)) = uuid))"

text \<open>\<open>GUID.search\<close>, lines 481-519.\<close>

definition search :: "binfile \<Rightarrow> int \<Rightarrow> string \<Rightarrow> (error + int) option" where
  "search f filesize filename =
     (if startswith filename ''MP51'' then search_legacy f filesize 0
      else if matches_at f 0x98 uuid_781F = Inr True then Some (Inr 0x98)
      else if matches_at f 0x1200 uuid_1138 = Inr True then Some (Inr 0x1200)
      else if matches_at f 0x1048 uuid_781F = Inr True then Some (Inr 0x1048)
      else (case seek f (filesize - 8) of
              Inl e \<Rightarrow> Some (Inl e)
            | Inr f1 \<Rightarrow> search_fallback f1 (filesize - 8)))"

section \<open>main: which code handles an image\<close>

text \<open>
  For each image \<open>main\<close> (lines 574-607) asks \<open>GUID.shouldPerformCheck\<close>. When it
  answers yes the image goes to \<open>EFI.getVersion\<close>, \<open>GUID.search\<close> and
  \<open>BoardID.getIDs\<close>, and \<open>GUID.search\<close> takes its MP51 branch or the branch of the fixed
  candidates (line 484). Otherwise the image goes to \<open>EFI.getData\<close> alone and
  \<open>GUID.search\<close> is not called.
\<close>

datatype path = LegacyForwardScan | FixedCandidateOffsets | GetDataOnly

definition search_branch :: "string \<Rightarrow> path" where
  "search_branch filename =
     (if startswith filename ''MP51'' then LegacyForwardScan else FixedCandidateOffsets)"

definition image_path :: "string \<Rightarrow> path" where
  "image_path filename =
     (if shouldPerformCheck filename then search_branch filename else GetDataOnly)"

section \<open>The version record, as the specification describes it\<close>

text \<open>
  The specification's well-formed record: 65 bytes, the text of five dot-delimited
  fields in two-byte little-endian characters and one closing null byte. The text is 32
  characters, the fields joined by dots after leading spaces, as in the record quoted
  at line 391 of the source.
\<close>

fun join_str :: "string \<Rightarrow> string list \<Rightarrow> string" where
  "join_str sep [] = []"
| "join_str sep [x] = x"
| "join_str sep (x # y # ys) = x @ sep @ join_str sep (y # ys)"

definition utf16le :: "string \<Rightarrow> byte list" where
  "utf16le s = concat (map (\<lambda>c. [of_char c, 0]) s)"

definition version_text :: "string list \<Rightarrow> string" where
  "version_text flds =
     replicate (32 - length (join_str ''.'' flds)) CHR '' '' @ join_str ''.'' flds"

definition version_record :: "string list \<Rightarrow> byte list" where
  "version_record flds = utf16le (version_text flds) @ [0]"

section \<open>Example images\<close>

text \<open>
  A table of five codes closed by the all-0xFF code, 28 bytes after anchor 0; a table
  of fourteen codes in the layout with two trailing bytes, for anchor 20; and an image
  that ends three bytes into the second code.
\<close>

definition table5 :: binfile where
  "table5 = \<lparr>content = replicate 28 0
       @ [0x94, 0x24, 0x5B, 0x36, 0x40, 0xC9, 0x1C, 0x81]
       @ [0x94, 0x24, 0x5A, 0x39, 0x40, 0xC9, 0x1C, 0x80]
       @ [0x94, 0x24, 0x59, 0xF5, 0x81, 0x9B, 0x17, 0x1B]
       @ [0x4B, 0x7A, 0xC7, 0xE4, 0x39, 0x45, 0x59, 0x7E]
       @ [0x6F, 0x01, 0x56, 0x1E, 0x16, 0xC7, 0x5D, 0x06]
       @ [0xFF, 0xFF, 0xFF, 0xFF, 0xFF, 0xFF, 0xFF, 0xFF]
       @ [1, 2, 3, 4, 5, 6, 7, 8], cursor = 0\<rparr>"

definition table14 :: binfile where
  "table14 = \<lparr>content = replicate 48 0
       @ concat (map (\<lambda>i. [0x94, 0x24, 0x5B, 0x36, 0x40, 0xC9, 0x1C, i, 0, 0])
           [1, 2, 3, 4, 5, 6, 7, 8, 9, 10, 11, 12, 13, 14])
       @ [0xFF, 0xFF, 0xFF, 0xFF, 0xFF, 0xFF, 0xFF, 0xFF], cursor = 7\<rparr>"

definition truncated :: binfile where
  "truncated = \<lparr>content = replicate 28 0
       @ [0x94, 0x24, 0x5B, 0x36, 0x40, 0xC9, 0x1C, 0x81] @ [0x94, 0x24, 0x5B], cursor = 0\<rparr>"

text \<open>
  A \<open>.scap\<close> image with the marker at 184, two steps up from the start 0xb0 of \<open>main\<close>,
  and a \<open>.fd\<close> image of 4176 bytes with the marker at 4100, eight steps down from the
  start \<open>filesize - 44\<close>; both hold the record of \<open>IM101.88Z.00CF.B00.1708080133\<close>.
\<close>

definition image_scap :: binfile where
  "image_scap = \<lparr>content = replicate 184 0 @ IBIOSI
       @ version_record [''IM101'', ''88Z'', ''00CF'', ''B00'', ''1708080133''], cursor = 0\<rparr>"

definition image_fd :: binfile where
  "image_fd = \<lparr>content = replicate 4100 0 @ IBIOSI
       @ version_record [''IM101'', ''88Z'', ''00CF'', ''B00'', ''1708080133'']
       @ [0, 0, 0], cursor = 0\<rparr>"

section \<open>Properties\<close>

declare getVersion_backward.simps [simp del]
declare getIDs_loop.simps [simp del]

subsection \<open>String helpers\<close>

lemma startswith_appendD: "startswith s (p @ q) \<Longrightarrow> startswith s p"
proof -
  assume "startswith s (p @ q)"
  then have h: "take (length p + length q) s = p @ q"
    by (simp add: startswith_def)
  have "take (length p) s = take (length p) (take (length p + length q) s)"
    by (simp add: min_def)
  also have "\<dots> = p"
    by (simp only: h) simp
  finally show ?thesis
    by (simp add: startswith_def)
qed

lemma startswith_IMP_IM: "startswith ident ''IMP'' \<Longrightarrow> startswith ident ''IM''"
  using startswith_appendD [of ident "''IM''" "''P''"] by simp

lemma startswith_conv: "startswith s p \<longleftrightarrow> (\<exists>r. s = p @ r)"
  unfolding startswith_def by (metis append_eq_conv_conj)

lemma split_str_not_Nil: "split_str sep s \<noteq> []"
  by (induction s) (auto split: list.splits)

lemma hd_split_str: "sep \<notin> set xs \<Longrightarrow> hd (split_str sep (xs @ sep # rest)) = xs"
  by (induction xs) (auto split: list.splits simp: split_str_not_Nil)

lemma filter_isdigit_empty: "\<forall>c\<in>set ident. \<not> isdigit c \<Longrightarrow> filter isdigit ident = []"
  by (induction ident) auto

subsection \<open>Model.getID\<close>

lemma getID_digitless:
  assumes "\<forall>c\<in>set ident. \<not> isdigit c"
  shows "getID ident =
     (if startswith ident ''IM'' then ''iMac,''
      else if startswith ident ''MBP'' then ''MacBookPro,''
      else if startswith ident ''MBA'' then ''MacBookAir,''
      else if startswith ident ''MB'' then ''MacBook,''
      else if startswith ident ''MM'' then ''Macmini,''
      else if startswith ident ''MP'' then ''MacPro,''
      else ''Unknown'')"
  using startswith_IMP_IM [of ident]
  by (simp add: getID_def filter_isdigit_empty [OF assms] slice_upto_def slice_from_def Let_def)

text \<open>
  C3. The claim: a token whose leading letters are \<open>IMP\<close> gives the iMacPro family,
  \<open>iMacPro<major>,<minor>\<close>. The source tests \<open>IM\<close> (line 446) before \<open>IMP\<close>
  (line 448), so the \<open>IMP\<close> branch is never reached: the token \<open>IMP11\<close> gives
  \<open>iMac1,1\<close>, not \<open>iMacPro1,1\<close>.
\<close>

theorem getID_IMP11: "getID ''IMP11'' = ''iMac1,1''"
  by (simp add: getID_def startswith_def slice_upto_def slice_from_def isdigit_def)

text \<open>
  Outside the tokens in \<open>IMP\<close>, a token with no digit at all that begins with a
  recognized prefix gives its family name and a comma, the major and minor parts
  empty, and never \<open>Unknown\<close>.
\<close>

lemma getID_digitless_family:
  assumes "\<forall>c\<in>set ident. \<not> isdigit c"
    and "\<not> startswith ident ''IMP''"
    and "startswith ident ''IM'' \<or> startswith ident ''MBP'' \<or> startswith ident ''MBA''
         \<or> startswith ident ''MB'' \<or> startswith ident ''MM'' \<or> startswith ident ''MP''"
  shows "getID ident =
     (if startswith ident ''IM'' then ''iMac,''
      else if startswith ident ''MBP'' then ''MacBookPro,''
      else if startswith ident ''MBA'' then ''MacBookAir,''
      else if startswith ident ''MB'' then ''MacBook,''
      else if startswith ident ''MM'' then ''Macmini,''
      else ''MacPro,'')
     \<and> getID ident \<noteq> ''Unknown''"
  using assms(3) by (auto simp add: getID_digitless [OF assms(1)])

text \<open>
  C10. The claim: a token with no digit at all that begins with a recognized prefix
  gives the family name followed by a comma, the major and minor parts empty. For a
  token in \<open>IMP\<close> the family is iMacPro, but the source tests \<open>IM\<close> (line 446)
  before \<open>IMP\<close> (line 448): the token \<open>IMP\<close> gives \<open>iMac,\<close>, not \<open>iMacPro,\<close>.
\<close>

theorem getID_IMP_digitless: "getID ''IMP'' = ''iMac,''"
  by (simp add: getID_def startswith_def slice_upto_def slice_from_def isdigit_def)

subsection \<open>Which code handles an image\<close>

lemma MP51_underscore_not_checked:
  assumes "startswith filename ''MP51_''"
  shows "\<not> shouldPerformCheck filename"
proof -
  from assms obtain r where r: "filename = ''MP51'' @ CHR ''_'' # r"
    by (auto simp: startswith_conv)
  have "hd (split_str CHR ''_'' filename) = ''MP51''"
    unfolding r by (rule hd_split_str) simp
  then show ?thesis
    by (simp add: shouldPerformCheck_def oldStyleFWModels_def)
qed

text \<open>
  C1, as stated: an image whose name begins with \<open>MP51_\<close> goes through the legacy
  forward scan of \<open>GUID.search\<close>. It does not: \<open>MP51\<close> is in \<open>oldStyleFWModels\<close>, so
  \<open>GUID.shouldPerformCheck\<close> answers no and \<open>main\<close> never calls \<open>GUID.search\<close> for it.
\<close>

theorem MP51_image_not_scanned:
  "startswith ''MP51_007F_03B_LOCKED.scap'' ''MP51_''
   \<and> image_path ''MP51_007F_03B_LOCKED.scap'' \<noteq> LegacyForwardScan"
  using MP51_underscore_not_checked [of "''MP51_007F_03B_LOCKED.scap''"]
  by (simp add: image_path_def startswith_def)

text \<open>
  C1, amended: an image whose name begins with \<open>MP51_\<close> is handled by
  \<open>EFI.getData\<close> alone, through neither branch of \<open>GUID.search\<close>; and
  \<open>GUID.search\<close> itself, called with such a name, takes its MP51 branch (the scan for
  the legacy UUID from position 0), never the fixed candidate offsets.
\<close>

theorem MP51_image_path:
  assumes "startswith filename ''MP51_''"
  shows "image_path filename = GetDataOnly
     \<and> search_branch filename = LegacyForwardScan
     \<and> search f filesize filename = search_legacy f filesize 0"
proof -
  have "startswith filename ''MP51''"
    using assms startswith_appendD [of filename "''MP51''" "''_''"] by simp
  then show ?thesis
    using MP51_underscore_not_checked [OF assms]
    by (simp add: image_path_def search_branch_def search_def)
qed

theorem MP51_image_path_witness:
  "startswith ''MP51_007F_03B_LOCKED.fd'' ''MP51_''
   \<and> image_path ''MP51_007F_03B_LOCKED.fd'' = GetDataOnly
   \<and> search_branch ''MP51_007F_03B_LOCKED.fd'' = LegacyForwardScan"
  using MP51_image_path [of "''MP51_007F_03B_LOCKED.fd''"]
  by (simp add: startswith_def)

subsection \<open>EFI.shouldWarnAboutUpdate\<close>

text \<open>
  C7. On Darwin, with at least five dot-delimited fields on each side, the answer is
  true exactly when the fifth field of the reference is lexicographically less than
  the fifth field of the candidate with its null characters removed; equal dates give
  false.
\<close>

theorem shouldWarnAboutUpdate_iff:
  assumes "5 \<le> length (split_str CHR ''.'' rawVersion)"
    and "5 \<le> length (split_str CHR ''.'' biosID)"
  shows "shouldWarnAboutUpdate ''Darwin'' rawVersion biosID =
           Inr (split_str CHR ''.'' rawVersion ! 4
                  < filter (\<lambda>c. c \<noteq> CHR 0x00) (split_str CHR ''.'' biosID ! 4))
     \<and> (split_str CHR ''.'' rawVersion ! 4
           = filter (\<lambda>c. c \<noteq> CHR 0x00) (split_str CHR ''.'' biosID ! 4)
         \<longrightarrow> shouldWarnAboutUpdate ''Darwin'' rawVersion biosID = Inr False)"
  using assms by (simp add: shouldWarnAboutUpdate_def item_def)

theorem shouldWarnAboutUpdate_iff_witness:
  "shouldWarnAboutUpdate ''Darwin'' ''IM101.88Z.00CF.B00.1706010000''
     [CHR ''I'', CHR 0x00, CHR ''M'', CHR 0x00, CHR ''.'', CHR 0x00, CHR ''8'', CHR 0x00,
      CHR ''.'', CHR 0x00, CHR ''C'', CHR 0x00, CHR ''.'', CHR 0x00, CHR ''B'', CHR 0x00,
      CHR ''.'', CHR 0x00, CHR ''1'', CHR 0x00, CHR ''7'', CHR 0x00, CHR ''0'', CHR 0x00,
      CHR ''8'', CHR 0x00, CHR ''0'', CHR 0x00, CHR ''8'', CHR 0x00, CHR ''0'', CHR 0x00,
      CHR ''1'', CHR 0x00, CHR ''3'', CHR 0x00, CHR ''3'', CHR 0x00, CHR 0x00] = Inr True
   \<and> shouldWarnAboutUpdate ''Darwin'' ''IM101.88Z.00CF.B00.1708080133''
        ''IM101.88Z.00CF.B00.1708080133'' = Inr False"
  using shouldWarnAboutUpdate_iff [of "''IM101.88Z.00CF.B00.1706010000''"
      "[CHR ''I'', CHR 0x00, CHR ''M'', CHR 0x00, CHR ''.'', CHR 0x00, CHR ''8'', CHR 0x00,
      CHR ''.'', CHR 0x00, CHR ''C'', CHR 0x00, CHR ''.'', CHR 0x00, CHR ''B'', CHR 0x00,
      CHR ''.'', CHR 0x00, CHR ''1'', CHR 0x00, CHR ''7'', CHR 0x00, CHR ''0'', CHR 0x00,
      CHR ''8'', CHR 0x00, CHR ''0'', CHR 0x00, CHR ''8'', CHR 0x00, CHR ''0'', CHR 0x00,
      CHR ''1'', CHR 0x00, CHR ''3'', CHR 0x00, CHR ''3'', CHR 0x00, CHR 0x00]"]
    shouldWarnAboutUpdate_iff [of "''IM101.88Z.00CF.B00.1708080133''"
      "''IM101.88Z.00CF.B00.1708080133''"]
  by simp

subsection \<open>The identifier table\<close>

lemma getByBoardID_loop_distinct:
  "distinct (map fst tbl) \<Longrightarrow> (b, m) \<in> set tbl \<Longrightarrow> getByBoardID_loop tbl b = m"
  by (induction tbl) (auto simp: rev_image_eqI)

lemma getByModelID_loop_unique:
  "(b, m) \<in> set tbl \<Longrightarrow> length (filter (\<lambda>x. snd x = m) tbl) = 1
   \<Longrightarrow> getByModelID_loop tbl m = b"
proof (induction tbl)
  case Nil
  then show ?case by simp
next
  case (Cons x xs)
  show ?case
  proof (cases "snd x = m")
    case True
    with Cons.prems(2) have "filter (\<lambda>x. snd x = m) xs = []"
      by simp
    then have "(b, m) \<notin> set xs"
      by (auto simp: filter_empty_conv)
    with Cons.prems(1) have "x = (b, m)"
      by simp
    then show ?thesis
      by simp
  next
    case False
    with Cons show ?thesis
      by auto
  qed
qed

lemma boardIDModelIDs_distinct: "distinct (map fst boardIDModelIDs)"
  unfolding boardIDModelIDs_def by simp

text \<open>
  C6. For every row of \<open>boardIDModelIDs\<close> whose model name occurs in one row only,
  looking the identifier's model up and then the model's identifier gives the
  identifier back.
\<close>

theorem getByModelID_getByBoardID:
  assumes "(boardID, modelID) \<in> set boardIDModelIDs"
    and "length (filter (\<lambda>x. snd x = modelID) boardIDModelIDs) = 1"
  shows "getByModelID (getByBoardID boardID) = boardID"
  using getByBoardID_loop_distinct [OF boardIDModelIDs_distinct assms(1)]
    getByModelID_loop_unique [OF assms]
  by (simp add: getByModelID_def getByBoardID_def)

theorem getByModelID_getByBoardID_witness:
  "(''Mac-7BA5B2D9E42DDD94'', ''iMacPro1,1'') \<in> set boardIDModelIDs
   \<and> length (filter (\<lambda>x. snd x = ''iMacPro1,1'') boardIDModelIDs) = 1
   \<and> getByModelID (getByBoardID ''Mac-7BA5B2D9E42DDD94'') = ''Mac-7BA5B2D9E42DDD94''"
  using getByModelID_getByBoardID [of "''Mac-7BA5B2D9E42DDD94''" "''iMacPro1,1''"]
  by (simp add: boardIDModelIDs_def)

subsection \<open>BoardID.getIDs\<close>

lemma seek_Inr: "0 \<le> p \<Longrightarrow> seek f p = Inr (f\<lparr>cursor := nat p\<rparr>)"
  by (simp add: seek_def)

lemma read_after_seek:
  "read (f\<lparr>cursor := p\<rparr>) n
     = (take n (drop p (content f)), f\<lparr>cursor := p + length (take n (drop p (content f)))\<rparr>)"
  by (simp add: read_def Let_def)

lemma getIDs_loop_codes:
  assumes "0 \<le> pos + 8"
    and "\<forall>i<length cs. take 8 (drop (nat (pos + 8 + (if t then 10 else 8) * int i)) (content f)) = cs ! i"
    and "\<forall>c\<in>set cs. c \<noteq> [0xFF, 0xFF, 0xFF, 0xFF, 0xFF, 0xFF, 0xFF, 0xFF]"
    and "length cs + 1 = count \<or>
         (length cs + 1 < count \<and>
          take 8 (drop (nat (pos + 8 + (if t then 10 else 8) * int (length cs))) (content f))
            = [0xFF, 0xFF, 0xFF, 0xFF, 0xFF, 0xFF, 0xFF, 0xFF])"
  shows "getIDs_loop count f pos t acc = Inr (acc @ map (\<lambda>c. ''Mac-'' @ upper (hexlify c)) cs)"
  using assms
proof (induction cs arbitrary: count f pos acc)
  case Nil
  then show ?case
    by (subst getIDs_loop.simps) (auto simp: seek_Inr read_after_seek)
next
  case (Cons c cs)
  let ?st = "(if t then 10 else 8) :: int"
  let ?f2 = "f\<lparr>cursor := nat (pos + 8) + length (take 8 (drop (nat (pos + 8)) (content f)))\<rparr>"
  from Cons.prems(2) have c: "take 8 (drop (nat (pos + 8)) (content f)) = c"
    by (auto dest: spec [of _ 0])
  from Cons.prems(3) have cne: "c \<noteq> [0xFF, 0xFF, 0xFF, 0xFF, 0xFF, 0xFF, 0xFF, 0xFF]"
    by simp
  from Cons.prems(4) have cnt: "1 < count" by auto
  have slots: "\<forall>i<length cs. take 8 (drop (nat (pos + ?st + 8 + ?st * int i)) (content ?f2)) = cs ! i"
  proof (intro allI impI)
    fix i assume "i < length cs"
    then have "Suc i < length (c # cs)" by simp
    from Cons.prems(2) [rule_format, OF this]
    show "take 8 (drop (nat (pos + ?st + 8 + ?st * int i)) (content ?f2)) = cs ! i"
      by (simp add: algebra_simps)
  qed
  have rest: "length cs + 1 = count - 1 \<or>
         (length cs + 1 < count - 1 \<and>
          take 8 (drop (nat (pos + ?st + 8 + ?st * int (length cs))) (content ?f2))
            = [0xFF, 0xFF, 0xFF, 0xFF, 0xFF, 0xFF, 0xFF, 0xFF])"
    using Cons.prems(4) by (auto simp: algebra_simps)
  have "getIDs_loop (count - 1) ?f2 (pos + ?st) t (acc @ [''Mac-'' @ upper (hexlify c)])
      = Inr ((acc @ [''Mac-'' @ upper (hexlify c)]) @ map (\<lambda>c. ''Mac-'' @ upper (hexlify c)) cs)"
    using Cons.prems(1,3) by (intro Cons.IH slots rest) auto
  moreover have "(if t then pos + 8 + 2 else pos + 8) = pos + ?st"
    by simp
  ultimately have IH: "getIDs_loop (count - 1) ?f2 (if t then pos + 8 + 2 else pos + 8) t
        (acc @ [''Mac-'' @ upper (hexlify c)])
      = Inr (acc @ map (\<lambda>c. ''Mac-'' @ upper (hexlify c)) (c # cs))"
    by (simp only: append_assoc list.map append_Cons append_Nil)
  show ?case
    using cnt cne Cons.prems(1)
    by (subst getIDs_loop.simps) (simp only: seek_Inr read_after_seek c IH [unfolded c] if_True if_False sum.case prod.case)
qed


lemma upper_hexdigit:
  assumes "n < 16"
  shows "upper [hexdigit n] = [''0123456789ABCDEF'' ! n]"
proof -
  have "list_all (\<lambda>n. upper [hexdigit n] = [''0123456789ABCDEF'' ! n]) [0..<16]"
    by (simp add: upt_rec upper_def hexdigit_def char_of_eq_iff)
  with assms show ?thesis
    by (simp add: list_all_iff)
qed

lemma upper_append: "upper (xs @ ys) = upper xs @ upper ys"
  by (simp add: upper_def)

lemma upper_hexlify:
  "upper (hexlify bs) =
     concat (map (\<lambda>b. [''0123456789ABCDEF'' ! (unat b div 16), ''0123456789ABCDEF'' ! (unat b mod 16)]) bs)"
proof (induction bs)
  case Nil
  then show ?case by (simp add: hexlify_def upper_def)
next
  case (Cons b bs)
  have lt: "unat b div 16 < 16"
    using unsigned_less [of b] by (simp add: div_less_iff_less_mult)
  have "upper (hexlify (b # bs))
      = upper [hexdigit (unat b div 16)] @ upper [hexdigit (unat b mod 16)] @ upper (hexlify bs)"
    by (simp add: hexlify_def upper_def)
  also have "\<dots> = [''0123456789ABCDEF'' ! (unat b div 16)]
      @ [''0123456789ABCDEF'' ! (unat b mod 16)] @ upper (hexlify bs)"
    by (simp only: upper_hexdigit [OF lt] upper_hexdigit [of "unat b mod 16"] mod_less_divisor
        zero_less_numeral)
  finally show ?case
    by (simp only: Cons.IH list.map concat.simps append_Cons append_Nil)
qed

lemma getIDs_codes:
  assumes "0 \<le> position" and "length cs \<le> 14"
    and "map (slot f position t) [0..<length cs] = cs"
    and "[0xFF, 0xFF, 0xFF, 0xFF, 0xFF, 0xFF, 0xFF, 0xFF] \<notin> set cs"
    and "length cs = 14 \<or> slot f position t (length cs) = [0xFF, 0xFF, 0xFF, 0xFF, 0xFF, 0xFF, 0xFF, 0xFF]"
  shows "getIDs f position t = Inr (map (\<lambda>c. ''Mac-'' @ upper (hexlify c)) cs)"
proof -
  let ?f1 = "f\<lparr>cursor := nat (position + 20)\<rparr>"
  let ?st = "(if t then 10 else 8) :: int"
  have pos: "position + 20 + 8 + ?st * int i = position + 28 + ?st * int i" for i
    by simp
  have f1: "content ?f1 = content f"
    by simp
  have nth: "slot f position t i = cs ! i" if "i < length cs" for i
  proof -
    from that have "map (slot f position t) [0..<length cs] ! i = slot f position t i"
      by simp
    with assms(3) show ?thesis
      by simp
  qed
  have "getIDs_loop 15 ?f1 (position + 20) t []
      = Inr ([] @ map (\<lambda>c. ''Mac-'' @ upper (hexlify c)) cs)"
  proof (rule getIDs_loop_codes)
    show "0 \<le> position + 20 + 8"
      using assms(1) by simp
    show "\<forall>i<length cs. take 8 (drop (nat (position + 20 + 8 + ?st * int i)) (content ?f1)) = cs ! i"
      using nth unfolding slot_def pos f1 by blast
    show "\<forall>c\<in>set cs. c \<noteq> [0xFF, 0xFF, 0xFF, 0xFF, 0xFF, 0xFF, 0xFF, 0xFF]"
      using assms(4) by auto
    show "length cs + 1 = 15 \<or>
         (length cs + 1 < 15 \<and>
          take 8 (drop (nat (position + 20 + 8 + ?st * int (length cs))) (content ?f1))
            = [0xFF, 0xFF, 0xFF, 0xFF, 0xFF, 0xFF, 0xFF, 0xFF])"
      using assms(2,5) unfolding slot_def pos f1 by auto
  qed
  then show ?thesis
    using assms(1) by (simp add: getIDs_def seek_Inr)
qed


lemma getIDs_loop_entries:
  assumes "getIDs_loop count f pos t acc = Inr ids"
  shows "\<exists>n. n \<le> count - 1
     \<and> ids = acc @ map (\<lambda>i. ''Mac-'' @ upper (hexlify
                 (take 8 (drop (nat (pos + 8 + (if t then 10 else 8) * int i)) (content f))))) [0..<n]
     \<and> (\<forall>i<n. take 8 (drop (nat (pos + 8 + (if t then 10 else 8) * int i)) (content f))
                 \<noteq> [0xFF, 0xFF, 0xFF, 0xFF, 0xFF, 0xFF, 0xFF, 0xFF])"
  using assms
proof (induction count arbitrary: f pos acc ids)
  case 0
  then have "ids = acc"
    by (subst (asm) getIDs_loop.simps) simp
  then show ?case
    by (intro exI [of _ 0]) simp
next
  case (Suc k)
  let ?st = "(if t then 10 else 8) :: int"
  let ?rd = "\<lambda>f pos i. take 8 (drop (nat (pos + 8 + ?st * int i)) (content f))"
  let ?bs = "take 8 (drop (nat (pos + 8)) (content f))"
  let ?f2 = "f\<lparr>cursor := nat (pos + 8) + length ?bs\<rparr>"
  let ?x = "''Mac-'' @ upper (hexlify ?bs)"
  show ?case
  proof (cases "1 < Suc k \<and> ?bs \<noteq> [0xFF, 0xFF, 0xFF, 0xFF, 0xFF, 0xFF, 0xFF, 0xFF]")
    case False
    with Suc.prems have "ids = acc"
      by (subst (asm) getIDs_loop.simps)
        (auto simp: seek_def read_after_seek split: if_splits)
    then show ?thesis
      by (intro exI [of _ 0]) simp
  next
    case True
    from Suc.prems True have nonneg: "0 \<le> pos + 8"
      by (subst (asm) getIDs_loop.simps) (auto simp: seek_def split: if_splits)
    from Suc.prems True nonneg
    have "getIDs_loop k ?f2 (if t then pos + 8 + 2 else pos + 8) t (acc @ [?x]) = Inr ids"
      by (subst (asm) getIDs_loop.simps)
        (simp add: seek_Inr read_after_seek split: if_splits)
    moreover have "(if t then pos + 8 + 2 else pos + 8) = pos + ?st"
      by simp
    ultimately have "getIDs_loop k ?f2 (pos + ?st) t (acc @ [?x]) = Inr ids"
      by (simp only:)
    from Suc.IH [OF this] obtain n where n: "n \<le> k - 1"
      and ids: "ids = (acc @ [?x]) @ map (\<lambda>i. ''Mac-'' @ upper (hexlify (?rd ?f2 (pos + ?st) i))) [0..<n]"
      and ne: "\<forall>i<n. ?rd ?f2 (pos + ?st) i \<noteq> [0xFF, 0xFF, 0xFF, 0xFF, 0xFF, 0xFF, 0xFF, 0xFF]"
      by blast
    have shift: "?rd ?f2 (pos + ?st) i = ?rd f pos (Suc i)" for i
      by (simp add: algebra_simps)
    have zero: "?rd f pos 0 = ?bs"
      by simp
    have "ids = acc @ map (\<lambda>i. ''Mac-'' @ upper (hexlify (?rd f pos i))) [0..<Suc n]"
      unfolding ids map_upt_Suc shift zero by simp
    moreover have "\<forall>i<Suc n. ?rd f pos i \<noteq> [0xFF, 0xFF, 0xFF, 0xFF, 0xFF, 0xFF, 0xFF, 0xFF]"
    proof (intro allI impI)
      fix i assume "i < Suc n"
      then show "?rd f pos i \<noteq> [0xFF, 0xFF, 0xFF, 0xFF, 0xFF, 0xFF, 0xFF, 0xFF]"
        using True ne [unfolded shift] zero by (cases i) auto
    qed
    moreover have "Suc n \<le> Suc k - 1"
      using n True by arith
    ultimately show ?thesis
      by blast
  qed
qed

lemma length_upper_hexlify: "length (upper (hexlify bs)) = 2 * length bs"
  by (induction bs) (simp_all add: upper_def hexlify_def)

lemma upper_hexlify_chars:
  assumes "x \<in> set (upper (hexlify bs))"
  shows "x \<in> set ''0123456789ABCDEF''"
proof -
  have mem: "''0123456789ABCDEF'' ! n \<in> set ''0123456789ABCDEF''" if "n < 16" for n
    using that by (intro nth_mem) simp
  from assms obtain b :: byte
    where "x = ''0123456789ABCDEF'' ! (unat b div 16) \<or> x = ''0123456789ABCDEF'' ! (unat b mod 16)"
    unfolding upper_hexlify by (auto simp del: nth_Cons_numeral)
  moreover have "unat b div 16 < 16"
    using unsigned_less [of b] by (simp add: div_less_iff_less_mult)
  moreover have "unat b mod 16 < 16"
    by simp
  ultimately show ?thesis
    using mem by metis
qed

lemma getIDs_entries:
  assumes "getIDs f position t = Inr ids" and "i < length ids"
  shows "ids ! i = ''Mac-'' @ upper (hexlify (slot f position t i))
     \<and> slot f position t i \<noteq> [0xFF, 0xFF, 0xFF, 0xFF, 0xFF, 0xFF, 0xFF, 0xFF]
     \<and> length ids \<le> 14 \<and> 0 \<le> position + 20"
proof -
  let ?st = "(if t then 10 else 8) :: int"
  let ?f1 = "f\<lparr>cursor := nat (position + 20)\<rparr>"
  from assms(1) have nonneg: "0 \<le> position + 20"
    by (auto simp: getIDs_def seek_def split: if_splits)
  with assms(1) have "getIDs_loop 15 ?f1 (position + 20) t [] = Inr ids"
    by (simp add: getIDs_def seek_Inr)
  from getIDs_loop_entries [OF this] obtain n where n: "n \<le> 14"
    and ids: "ids = map (\<lambda>i. ''Mac-'' @ upper (hexlify
                 (take 8 (drop (nat (position + 20 + 8 + ?st * int i)) (content ?f1))))) [0..<n]"
    and ne: "\<forall>i<n. take 8 (drop (nat (position + 20 + 8 + ?st * int i)) (content ?f1))
                 \<noteq> [0xFF, 0xFF, 0xFF, 0xFF, 0xFF, 0xFF, 0xFF, 0xFF]"
    by auto
  have "position + 20 + 8 + ?st * int i = position + 28 + ?st * int i" for i
    by simp
  moreover have "content ?f1 = content f"
    by simp
  ultimately have rd: "take 8 (drop (nat (position + 20 + 8 + ?st * int i)) (content ?f1)) = slot f position t i" for i
    unfolding slot_def by (simp only:)
  from ids have len: "length ids = n"
    by simp
  with assms(2) ids ne n nonneg show ?thesis
    unfolding rd by simp
qed


lemma getIDs_table5:
  "getIDs table5 0 False
     = Inr [''Mac-94245B3640C91C81'', ''Mac-94245A3940C91C80'', ''Mac-942459F5819B171B'',
            ''Mac-4B7AC7E43945597E'', ''Mac-6F01561E16C75D06'']"
  using getIDs_codes [of 0 "[[0x94, 0x24, 0x5B, 0x36, 0x40, 0xC9, 0x1C, 0x81],
        [0x94, 0x24, 0x5A, 0x39, 0x40, 0xC9, 0x1C, 0x80],
        [0x94, 0x24, 0x59, 0xF5, 0x81, 0x9B, 0x17, 0x1B],
        [0x4B, 0x7A, 0xC7, 0xE4, 0x39, 0x45, 0x59, 0x7E],
        [0x6F, 0x01, 0x56, 0x1E, 0x16, 0xC7, 0x5D, 0x06]]" table5 False]
  by (simp add: table5_def slot_def upper_hexlify)

text \<open>
  C5. When the slots the walker reads hold \<open>n \<le> 14\<close> codes, none the all-0xFF code,
  and either \<open>n = 14\<close> or the next slot holds the all-0xFF code, \<open>getIDs\<close> returns the
  \<open>n\<close> identifiers of these codes in file order. With \<open>n = 5\<close>: five codes and the
  sentinel give exactly the five; with \<open>n = 14\<close>: fourteen codes and no sentinel give
  all fourteen, and the walk stops there.
\<close>

theorem getIDs_table:
  assumes "0 \<le> position" and "length cs \<le> 14"
    and "map (slot f position trailingBytes) [0..<length cs] = cs"
    and "[0xFF, 0xFF, 0xFF, 0xFF, 0xFF, 0xFF, 0xFF, 0xFF] \<notin> set cs"
    and "length cs = 14
         \<or> slot f position trailingBytes (length cs)
              = [0xFF, 0xFF, 0xFF, 0xFF, 0xFF, 0xFF, 0xFF, 0xFF]"
  shows "getIDs f position trailingBytes = Inr (map (\<lambda>c. ''Mac-'' @ upper (hexlify c)) cs)"
  using assms by (rule getIDs_codes)

theorem getIDs_table_witness:
  "getIDs table5 0 False
     = Inr [''Mac-94245B3640C91C81'', ''Mac-94245A3940C91C80'', ''Mac-942459F5819B171B'',
            ''Mac-4B7AC7E43945597E'', ''Mac-6F01561E16C75D06'']
   \<and> getIDs table14 20 True
     = Inr (map (\<lambda>c. ''Mac-94245B3640C91C'' @ c)
         [''01'', ''02'', ''03'', ''04'', ''05'', ''06'', ''07'', ''08'', ''09'', ''0A'', ''0B'',
          ''0C'', ''0D'', ''0E''])"
  using getIDs_table [of 0 "[[0x94, 0x24, 0x5B, 0x36, 0x40, 0xC9, 0x1C, 0x81],
        [0x94, 0x24, 0x5A, 0x39, 0x40, 0xC9, 0x1C, 0x80],
        [0x94, 0x24, 0x59, 0xF5, 0x81, 0x9B, 0x17, 0x1B],
        [0x4B, 0x7A, 0xC7, 0xE4, 0x39, 0x45, 0x59, 0x7E],
        [0x6F, 0x01, 0x56, 0x1E, 0x16, 0xC7, 0x5D, 0x06]]" table5 False]
    getIDs_table [of 20 "map (\<lambda>i. [0x94, 0x24, 0x5B, 0x36, 0x40, 0xC9, 0x1C, i])
        [1, 2, 3, 4, 5, 6, 7, 8, 9, 10, 11, 12, 13, 14]" table14 True]
  by (simp add: table5_def table14_def slot_def upper_hexlify)

text \<open>
  C8, as stated: every identifier \<open>getIDs\<close> returns, for every buffer, is \<open>Mac-\<close> and
  exactly 16 hexadecimal characters. Not for a table cut short by the end of the
  image: a read there returns fewer than 8 bytes, which are not the all-0xFF code and
  are rendered as they are.
\<close>

theorem getIDs_truncated:
  "getIDs truncated 0 False
     = Inr [''Mac-94245B3640C91C81'', ''Mac-94245B'', ''Mac-'', ''Mac-'', ''Mac-'', ''Mac-'',
            ''Mac-'', ''Mac-'', ''Mac-'', ''Mac-'', ''Mac-'', ''Mac-'', ''Mac-'', ''Mac-'']"
  using getIDs_codes [of 0 "[[0x94, 0x24, 0x5B, 0x36, 0x40, 0xC9, 0x1C, 0x81],
        [0x94, 0x24, 0x5B], [], [], [], [], [], [], [], [], [], [], [], []]" truncated False]
  by (simp add: truncated_def slot_def upper_hexlify)

text \<open>
  C8, amended: every identifier \<open>getIDs\<close> returns is \<open>Mac-\<close> followed by upper-case
  hexadecimal characters, two for each byte read from its slot; the bytes read are
  never the all-0xFF 8-byte code; and the characters are exactly 16 when the 8 bytes
  of the slot lie within the image.
\<close>

theorem getIDs_entries_hex:
  assumes "getIDs f position trailingBytes = Inr ids" and "i < length ids"
  shows "ids ! i = ''Mac-'' @ upper (hexlify (slot f position trailingBytes i))
     \<and> set (upper (hexlify (slot f position trailingBytes i))) \<subseteq> set ''0123456789ABCDEF''
     \<and> length (upper (hexlify (slot f position trailingBytes i)))
         = 2 * length (slot f position trailingBytes i)
     \<and> slot f position trailingBytes i \<noteq> [0xFF, 0xFF, 0xFF, 0xFF, 0xFF, 0xFF, 0xFF, 0xFF]
     \<and> (position + 28 + (if trailingBytes then 10 else 8) * int i + 8 \<le> int (length (content f))
          \<longrightarrow> length (upper (hexlify (slot f position trailingBytes i))) = 16)"
proof -
  let ?s = "slot f position trailingBytes i"
  from getIDs_entries [OF assms]
  have e: "ids ! i = ''Mac-'' @ upper (hexlify ?s)"
    and ne: "?s \<noteq> [0xFF, 0xFF, 0xFF, 0xFF, 0xFF, 0xFF, 0xFF, 0xFF]"
    and nonneg: "0 \<le> position + 20"
    by simp_all
  have chars: "set (upper (hexlify ?s)) \<subseteq> set ''0123456789ABCDEF''"
    using upper_hexlify_chars [of _ ?s] by blast
  have full: "length ?s = 8"
    if "position + 28 + (if trailingBytes then 10 else 8) * int i + 8 \<le> int (length (content f))"
    using that nonneg unfolding slot_def by (simp split: if_splits)
  show ?thesis
    using e ne chars full by (simp only: length_upper_hexlify) simp
qed

theorem getIDs_entries_hex_witness:
  "getIDs table5 0 False
     = Inr [''Mac-94245B3640C91C81'', ''Mac-94245A3940C91C80'', ''Mac-942459F5819B171B'',
            ''Mac-4B7AC7E43945597E'', ''Mac-6F01561E16C75D06'']
   \<and> slot table5 0 False 1 = [0x94, 0x24, 0x5A, 0x39, 0x40, 0xC9, 0x1C, 0x80]
   \<and> upper (hexlify (slot table5 0 False 1)) = ''94245A3940C91C80''
   \<and> length (upper (hexlify (slot table5 0 False 1))) = 16"
  using getIDs_entries_hex [OF getIDs_table5, of 1] getIDs_table5
  by (simp add: table5_def slot_def upper_hexlify)

subsection \<open>EFI.getVersion\<close>

lemma length_IBIOSI: "length IBIOSI = 8"
  by (simp add: IBIOSI_def)

lemma read_at:
  "read (f\<lparr>cursor := nat p\<rparr>) n
     = (bytes_at f p n, f\<lparr>cursor := nat p + length (bytes_at f p n)\<rparr>)"
  by (simp add: read_def bytes_at_def Let_def)

lemma getVersion_forward_finds:
  assumes "0 \<le> position"
    and "bytes_at f (position + 4 * int k) 8 = IBIOSI"
    and "IBIOSI \<notin> set (map (\<lambda>j. bytes_at f (position + 4 * int j) 8) [0..<k])"
  shows "getVersion_forward (f\<lparr>cursor := nat position\<rparr>) position
     = Some (Inr (position + 4 * int k, f\<lparr>cursor := nat (position + 4 * int k) + 8\<rparr>))"
  using assms
proof (induction k arbitrary: position)
  case 0
  then show ?case
    by (subst getVersion_forward.simps) (simp add: read_at length_IBIOSI)
next
  case (Suc k)
  have first: "bytes_at f position 8 \<noteq> IBIOSI"
    using Suc.prems(3) by (auto simp: upt_conv_Cons simp del: upt_Suc)
  have rest: "IBIOSI \<notin> set (map (\<lambda>j. bytes_at f (position + 4 + 4 * int j) 8) [0..<k])"
  proof
    assume "IBIOSI \<in> set (map (\<lambda>j. bytes_at f (position + 4 + 4 * int j) 8) [0..<k])"
    then obtain j where "j < k" "IBIOSI = bytes_at f (position + 4 + 4 * int j) 8"
      by auto
    then have "Suc j < Suc k" "IBIOSI = bytes_at f (position + 4 * int (Suc j)) 8"
      by (simp_all add: algebra_simps)
    then have "IBIOSI \<in> set (map (\<lambda>j. bytes_at f (position + 4 * int j) 8) [0..<Suc k])"
      by (metis (no_types, lifting) atLeastLessThan_iff imageI le0 set_map set_upt)
    with Suc.prems(3) show False by simp
  qed
  have pos: "position + 4 + 4 * int k = position + 4 * int (Suc k)"
    by simp
  have "getVersion_forward (f\<lparr>cursor := nat (position + 4)\<rparr>) (position + 4)
     = Some (Inr (position + 4 + 4 * int k, f\<lparr>cursor := nat (position + 4 + 4 * int k) + 8\<rparr>))"
    using Suc.prems(1,2) rest by (intro Suc.IH) (simp_all add: pos)
  then show ?case
    using first Suc.prems(1)
    by (subst getVersion_forward.simps) (simp add: read_at seek_def pos)
qed

lemma getVersion_backward_finds:
  assumes "0 \<le> position - 4 * int k"
    and "bytes_at f (position - 4 * int k) 8 = IBIOSI"
    and "IBIOSI \<notin> set (map (\<lambda>j. bytes_at f (position - 4 * int j) 8) [0..<k])"
  shows "getVersion_backward (f\<lparr>cursor := nat position\<rparr>) position
     = Inr (position - 4 * int k, f\<lparr>cursor := nat (position - 4 * int k) + 8\<rparr>)"
  using assms
proof (induction k arbitrary: position)
  case 0
  then show ?case
    by (subst getVersion_backward.simps) (simp add: read_at length_IBIOSI)
next
  case (Suc k)
  have first: "bytes_at f position 8 \<noteq> IBIOSI"
    using Suc.prems(3) by (auto simp: upt_conv_Cons simp del: upt_Suc)
  have rest: "IBIOSI \<notin> set (map (\<lambda>j. bytes_at f (position - 4 - 4 * int j) 8) [0..<k])"
  proof
    assume "IBIOSI \<in> set (map (\<lambda>j. bytes_at f (position - 4 - 4 * int j) 8) [0..<k])"
    then obtain j where "j < k" "IBIOSI = bytes_at f (position - 4 - 4 * int j) 8"
      by auto
    then have "Suc j < Suc k" "IBIOSI = bytes_at f (position - 4 * int (Suc j)) 8"
      by (simp_all add: algebra_simps)
    then have "IBIOSI \<in> set (map (\<lambda>j. bytes_at f (position - 4 * int j) 8) [0..<Suc k])"
      by (metis (no_types, lifting) atLeastLessThan_iff imageI le0 set_map set_upt)
    with Suc.prems(3) show False by simp
  qed
  have pos: "position - 4 - 4 * int k = position - 4 * int (Suc k)"
    by simp
  have "getVersion_backward (f\<lparr>cursor := nat (position - 4)\<rparr>) (position - 4)
     = Inr (position - 4 - 4 * int k, f\<lparr>cursor := nat (position - 4 - 4 * int k) + 8\<rparr>)"
    using Suc.prems(1,2) rest by (intro Suc.IH) (simp_all add: pos)
  moreover have "0 \<le> position - 4"
    using Suc.prems(1) by simp
  ultimately show ?case
    using first
    by (subst getVersion_backward.simps) (simp add: read_at seek_def pos)
qed

lemma getVersion_scan:
  assumes "0 \<le> start" and "0 \<le> scan_position start k"
    and "bytes_at f (scan_position start k) 8 = IBIOSI"
    and "IBIOSI \<notin> set (map (\<lambda>j. bytes_at f (scan_position start j) 8) [0..<k])"
  shows "getVersion f start = Some (decode (bytes_at f (scan_position start k + 8) 0x41))"
proof (cases "start > 4096")
  case True
  then have sp: "scan_position start j = start - 4 * int j" for j
    by (simp add: scan_position_def)
  have "getVersion_backward (f\<lparr>cursor := nat start\<rparr>) start
     = Inr (start - 4 * int k, f\<lparr>cursor := nat (start - 4 * int k) + 8\<rparr>)"
    using assms(2-4) unfolding sp by (rule getVersion_backward_finds)
  moreover have "nat (start - 4 * int k) + 8 = nat (start - 4 * int k + 8)"
    using assms(2) unfolding sp by simp
  ultimately show ?thesis
    using True assms(1) by (simp add: getVersion_def seek_def read_at sp)
next
  case False
  then have sp: "scan_position start j = start + 4 * int j" for j
    by (simp add: scan_position_def)
  have "getVersion_forward (f\<lparr>cursor := nat start\<rparr>) start
     = Some (Inr (start + 4 * int k, f\<lparr>cursor := nat (start + 4 * int k) + 8\<rparr>))"
    using assms(1,3,4) unfolding sp by (rule getVersion_forward_finds)
  moreover have "nat (start + 4 * int k) + 8 = nat (start + 4 * int k + 8)"
    using assms(1) by simp
  ultimately show ?thesis
    using False assms(1) by (simp add: getVersion_def seek_def read_at sp)
qed

lemma utf8_decode_ascii: "\<forall>b\<in>set bs. b < 0x80 \<Longrightarrow> utf8_decode bs = Some (map unat bs)"
  by (induction bs) simp_all

lemma decode_ascii:
  assumes "\<forall>b\<in>set bs. b < 0x80"
  shows "decode bs = Inr (map (\<lambda>b. char_of (unat b)) bs)"
proof -
  have "unat b < 256" for b :: byte
    using unsigned_less [of b] by simp
  then have "list_all (\<lambda>cp. cp < 256) (map unat bs)"
    by (simp add: list_all_iff)
  then show ?thesis
    by (simp add: decode_def utf8_decode_ascii [OF assms] comp_def)
qed

lemma byte_of_char: "unat (of_char c :: byte) = of_char c"
proof -
  have "(of_char c :: byte) = of_nat (of_char c)"
    by (simp add: of_nat_of_char)
  then have "unat (of_char c :: byte) = of_char c mod 2 ^ 8"
    by (simp only: unat_of_nat) simp
  then show ?thesis
    by simp
qed

lemma decode_utf16le:
  assumes "\<forall>c\<in>set s. of_char c < (128 :: nat)"
  shows "decode (utf16le s @ [0]) = Inr (concat (map (\<lambda>c. [c, CHR 0x00]) s) @ [CHR 0x00])"
proof -
  have small: "\<forall>b\<in>set (utf16le s @ [0]). b < 0x80"
    using assms by (auto simp: utf16le_def word_less_nat_alt byte_of_char)
  have "map (\<lambda>b. char_of (unat b)) (utf16le s) = concat (map (\<lambda>c. [c, CHR 0x00]) s)"
    by (induction s) (simp_all add: utf16le_def byte_of_char char_of_eq_iff)
  then show ?thesis
    by (simp add: decode_ascii [OF small] char_of_eq_iff)
qed


lemma split_str_filter:
  assumes "P sep"
  shows "map (filter P) (split_str sep s) = split_str sep (filter P s)"
proof (induction s)
  case Nil
  show ?case by simp
next
  case (Cons c cs)
  obtain w ws where sp: "split_str sep cs = w # ws"
    using split_str_not_Nil [of sep cs] by (cases "split_str sep cs") auto
  with Cons.IH have fsp: "split_str sep (filter P cs) = filter P w # map (filter P) ws"
    by simp
  show ?case
  proof (cases "c = sep")
    case True
    with assms Cons.IH show ?thesis by simp
  next
    case False
    then show ?thesis
      by (cases "P c") (simp_all add: sp fsp)
  qed
qed

lemma split_str_no_sep: "sep \<notin> set x \<Longrightarrow> split_str sep x = [x]"
  by (induction x) (auto split: list.splits)
lemma split_str_append_sep:
  "sep \<notin> set x \<Longrightarrow> split_str sep (x @ sep # rest) = x # split_str sep rest"
  by (induction x) (auto split: list.splits simp: split_str_not_Nil)
lemma split_str_join_str:
  "flds \<noteq> [] \<Longrightarrow> \<forall>x\<in>set flds. sep \<notin> set x
   \<Longrightarrow> split_str sep (join_str [sep] flds) = flds"
  by (induction "[sep]" flds rule: join_str.induct)
    (simp_all add: split_str_no_sep split_str_append_sep)

lemma drop_nul: "filter (\<lambda>c. c \<noteq> CHR 0x00 \<and> c \<noteq> CHR '' '') (concat (map (\<lambda>c. [c, CHR 0x00]) s)) = filter (\<lambda>c. c \<noteq> CHR 0x00 \<and> c \<noteq> CHR '' '') s"
  by (induction s) simp_all

lemma join_str_all:
  "\<forall>x\<in>set flds. \<forall>c\<in>set x. P c \<Longrightarrow> \<forall>c\<in>set sep. P c \<Longrightarrow> \<forall>c\<in>set (join_str sep flds). P c"
  by (induction sep flds rule: join_str.induct) auto

lemma filter_version_record:
  assumes "\<forall>x\<in>set flds. \<forall>c\<in>set x. c \<noteq> CHR 0x00 \<and> c \<noteq> CHR '' ''"
  shows "filter (\<lambda>c. c \<noteq> CHR 0x00 \<and> c \<noteq> CHR '' '')
           (concat (map (\<lambda>c. [c, CHR 0x00]) (version_text flds)) @ [CHR 0x00])
         = join_str ''.'' flds"
proof -
  have "\<forall>c\<in>set (join_str ''.'' flds). c \<noteq> CHR 0x00 \<and> c \<noteq> CHR '' ''"
    using assms by (intro join_str_all) simp_all
  then have "filter (\<lambda>c. c \<noteq> CHR 0x00 \<and> c \<noteq> CHR '' '') (join_str ''.'' flds) = join_str ''.'' flds"
    by (simp only: filter_True)
  then show ?thesis
    by (simp add: drop_nul version_text_def)
qed


lemma version_text_ascii:
  assumes "\<forall>x\<in>set flds. \<forall>c\<in>set x. of_char c < (128 :: nat)"
  shows "\<forall>c\<in>set (version_text flds). of_char c < (128 :: nat)"
proof -
  have "\<forall>c\<in>set (join_str ''.'' flds). of_char c < (128 :: nat)"
    using assms by (intro join_str_all) simp_all
  then show ?thesis
    by (auto simp: version_text_def)
qed

lemma getVersion_record_text:
  assumes "0 \<le> start" and "0 \<le> scan_position start k"
    and "bytes_at f (scan_position start k) 8 = IBIOSI"
    and "IBIOSI \<notin> set (map (\<lambda>j. bytes_at f (scan_position start j) 8) [0..<k])"
    and "bytes_at f (scan_position start k + 8) 0x41 = version_record flds"
    and "\<forall>x\<in>set flds. \<forall>c\<in>set x. of_char c < (128 :: nat)"
  shows "getVersion f start
           = Some (Inr (concat (map (\<lambda>c. [c, CHR 0x00]) (version_text flds)) @ [CHR 0x00]))"
proof -
  have "decode (version_record flds)
      = Inr (concat (map (\<lambda>c. [c, CHR 0x00]) (version_text flds)) @ [CHR 0x00])"
    unfolding version_record_def
    by (rule decode_utf16le) (rule version_text_ascii [OF assms(6)])
  moreover have "getVersion f start = Some (decode (bytes_at f (scan_position start k + 8) 0x41))"
    by (rule getVersion_scan [OF assms(1-4)])
  ultimately show ?thesis
    by (simp only: assms(5))
qed

lemma version_record_fields:
  assumes "length flds = 5"
    and "\<forall>x\<in>set flds. \<forall>c\<in>set x.
           c \<noteq> CHR ''.'' \<and> c \<noteq> CHR 0x00 \<and> c \<noteq> CHR '' ''"
  shows "map (filter (\<lambda>c. c \<noteq> CHR 0x00 \<and> c \<noteq> CHR '' ''))
           (split_str CHR ''.'' (concat (map (\<lambda>c. [c, CHR 0x00]) (version_text flds)) @ [CHR 0x00]))
         = flds"
proof -
  let ?P = "\<lambda>c. c \<noteq> CHR 0x00 \<and> c \<noteq> CHR '' ''"
  let ?r = "concat (map (\<lambda>c. [c, CHR 0x00]) (version_text flds)) @ [CHR 0x00]"
  have nonempty: "flds \<noteq> []"
    using assms(1) by auto
  have nodot: "\<forall>x\<in>set flds. CHR ''.'' \<notin> set x"
    using assms(2) by blast
  have clean: "\<forall>x\<in>set flds. \<forall>c\<in>set x. c \<noteq> CHR 0x00 \<and> c \<noteq> CHR '' ''"
    using assms(2) by blast
  have "map (filter ?P) (split_str CHR ''.'' ?r) = split_str CHR ''.'' (filter ?P ?r)"
    by (rule split_str_filter) simp
  also have "filter ?P ?r = join_str ''.'' flds"
    by (rule filter_version_record [OF clean])
  also have "split_str CHR ''.'' (join_str ''.'' flds) = flds"
    by (rule split_str_join_str [OF nonempty nodot])
  finally show ?thesis .
qed

lemma version_text_IM101:
  "version_text [''IM101'', ''88Z'', ''00CF'', ''B00'', ''1708080133'']
     = ''   IM101.88Z.00CF.B00.1708080133''"
  by (simp add: version_text_def numeral_3_eq_3)

lemma version_record_IM101:
  "version_record [''IM101'', ''88Z'', ''00CF'', ''B00'', ''1708080133'']
     = [0x20, 0, 0x20, 0, 0x20, 0, 0x49, 0, 0x4D, 0, 0x31, 0, 0x30, 0, 0x31, 0, 0x2E, 0,
        0x38, 0, 0x38, 0, 0x5A, 0, 0x2E, 0, 0x30, 0, 0x30, 0, 0x43, 0, 0x46, 0, 0x2E, 0,
        0x42, 0, 0x30, 0, 0x30, 0, 0x2E, 0, 0x31, 0, 0x37, 0, 0x30, 0, 0x38, 0, 0x30, 0,
        0x38, 0, 0x30, 0, 0x31, 0, 0x33, 0, 0x33, 0, 0]"
  by (simp add: version_record_def version_text_IM101 utf16le_def)

lemma image_scap_marker:
  "bytes_at image_scap (scan_position 0xb0 2) 8 = IBIOSI
   \<and> IBIOSI \<notin> set (map (\<lambda>j. bytes_at image_scap (scan_position 0xb0 j) 8) [0..<2])
   \<and> bytes_at image_scap (scan_position 0xb0 2 + 8) 0x41
       = version_record [''IM101'', ''88Z'', ''00CF'', ''B00'', ''1708080133'']"
  by (simp add: image_scap_def bytes_at_def scan_position_def version_record_IM101 IBIOSI_def
      upt_rec Cons_replicate_eq)

lemma image_fd_marker:
  "bytes_at image_fd (scan_position 4132 8) 8 = IBIOSI
   \<and> IBIOSI \<notin> set (map (\<lambda>j. bytes_at image_fd (scan_position 4132 j) 8) [0..<8])
   \<and> bytes_at image_fd (scan_position 4132 8 + 8) 0x41
       = version_record [''IM101'', ''88Z'', ''00CF'', ''B00'', ''1708080133'']
   \<and> int (length (content image_fd)) - 44 = 4132"
  by (simp add: image_fd_def bytes_at_def scan_position_def version_record_IM101 IBIOSI_def
      upt_rec Cons_replicate_eq)

lemma IM101_fields:
  "\<forall>x\<in>set [''IM101'', ''88Z'', ''00CF'', ''B00'', ''1708080133'']. \<forall>c\<in>set x.
     of_char c < (128 :: nat) \<and> c \<noteq> CHR ''.'' \<and> c \<noteq> CHR 0x00 \<and> c \<noteq> CHR '' ''"
  by simp

lemma getVersion_image_scap:
  "getVersion image_scap 0xb0
     = Some (Inr (concat (map (\<lambda>c. [c, CHR 0x00]) ''   IM101.88Z.00CF.B00.1708080133'')
                  @ [CHR 0x00]))"
proof -
  note m = image_scap_marker
  have ascii: "\<forall>x\<in>set [''IM101'', ''88Z'', ''00CF'', ''B00'', ''1708080133'']. \<forall>c\<in>set x. of_char c < (128 :: nat)"
    by simp
  have "getVersion image_scap 0xb0
     = Some (Inr (concat (map (\<lambda>c. [c, CHR 0x00]) (version_text [''IM101'', ''88Z'', ''00CF'', ''B00'', ''1708080133''])) @ [CHR 0x00]))"
    by (rule getVersion_record_text [OF _ _ m [THEN conjunct1] m [THEN conjunct2, THEN conjunct1]
          m [THEN conjunct2, THEN conjunct2] ascii])
      (simp_all add: scan_position_def)
  then show ?thesis
    by (simp only: version_text_IM101)
qed

text \<open>
  C4. A marker at \<open>start - 4k\<close>, with no marker read at the \<open>k\<close> positions before it,
  is found by the backward loop when \<open>start > 4096\<close>; a marker at \<open>start + 4k\<close> is
  found by the forward loop when \<open>start \<le> 4096\<close> (\<open>start\<close> is an offset, so not
  negative). \<open>getVersion\<close> then decodes the 65 bytes after the marker.
\<close>

theorem getVersion_finds_marker:
  "(4096 < start \<and> 0 \<le> start - 4 * int k
      \<and> bytes_at f (start - 4 * int k) 8 = IBIOSI
      \<and> IBIOSI \<notin> set (map (\<lambda>j. bytes_at f (start - 4 * int j) 8) [0..<k])
     \<longrightarrow> getVersion_backward (f\<lparr>cursor := nat start\<rparr>) start
           = Inr (start - 4 * int k, f\<lparr>cursor := nat (start - 4 * int k) + 8\<rparr>)
       \<and> getVersion f start = Some (decode (bytes_at f (start - 4 * int k + 8) 0x41)))
   \<and> (0 \<le> start \<and> start \<le> 4096
      \<and> bytes_at f (start + 4 * int k) 8 = IBIOSI
      \<and> IBIOSI \<notin> set (map (\<lambda>j. bytes_at f (start + 4 * int j) 8) [0..<k])
     \<longrightarrow> getVersion_forward (f\<lparr>cursor := nat start\<rparr>) start
           = Some (Inr (start + 4 * int k, f\<lparr>cursor := nat (start + 4 * int k) + 8\<rparr>))
       \<and> getVersion f start = Some (decode (bytes_at f (start + 4 * int k + 8) 0x41)))"
proof (intro conjI impI; elim conjE)
  assume big: "4096 < start" and nonneg: "0 \<le> start - 4 * int k"
    and marker: "bytes_at f (start - 4 * int k) 8 = IBIOSI"
    and before: "IBIOSI \<notin> set (map (\<lambda>j. bytes_at f (start - 4 * int j) 8) [0..<k])"
  from big have sp: "scan_position start j = start - 4 * int j" for j
    by (simp add: scan_position_def)
  show "getVersion_backward (f\<lparr>cursor := nat start\<rparr>) start
           = Inr (start - 4 * int k, f\<lparr>cursor := nat (start - 4 * int k) + 8\<rparr>)"
    using nonneg marker before by (rule getVersion_backward_finds)
  from big have "0 \<le> start"
    by simp
  from getVersion_scan [of start k f, unfolded sp, OF this nonneg marker before]
  show "getVersion f start = Some (decode (bytes_at f (start - 4 * int k + 8) 0x41))" .
next
  assume nonneg: "0 \<le> start" and small: "start \<le> 4096"
    and marker: "bytes_at f (start + 4 * int k) 8 = IBIOSI"
    and before: "IBIOSI \<notin> set (map (\<lambda>j. bytes_at f (start + 4 * int j) 8) [0..<k])"
  from small have sp: "scan_position start j = start + 4 * int j" for j
    by (simp add: scan_position_def)
  show "getVersion_forward (f\<lparr>cursor := nat start\<rparr>) start
           = Some (Inr (start + 4 * int k, f\<lparr>cursor := nat (start + 4 * int k) + 8\<rparr>))"
    using nonneg marker before by (rule getVersion_forward_finds)
  from nonneg have "0 \<le> start + 4 * int k"
    by simp
  from getVersion_scan [of start k f, unfolded sp, OF nonneg this marker before]
  show "getVersion f start = Some (decode (bytes_at f (start + 4 * int k + 8) 0x41))" .
qed

theorem getVersion_finds_marker_witness:
  "getVersion_backward (image_fd\<lparr>cursor := 4132\<rparr>) 4132 = Inr (4100, image_fd\<lparr>cursor := 4108\<rparr>)
   \<and> getVersion image_fd 4132 = Some (decode (version_record [''IM101'', ''88Z'', ''00CF'', ''B00'', ''1708080133'']))
   \<and> getVersion_forward (image_scap\<lparr>cursor := 176\<rparr>) 0xb0
       = Some (Inr (184, image_scap\<lparr>cursor := 192\<rparr>))
   \<and> getVersion image_scap 0xb0 = Some (decode (version_record [''IM101'', ''88Z'', ''00CF'', ''B00'', ''1708080133'']))"
  using getVersion_finds_marker [of 4132 8 image_fd] getVersion_finds_marker [of "0xb0" 2 image_scap]
    image_fd_marker image_scap_marker
  by (simp add: scan_position_def)

text \<open>
  C2, as stated: \<open>getVersion\<close> returns the record with its null separators collapsed, the
  five dot-delimited fields as they were. It returns the 65 bytes decoded as they are:
  for the record of \<open>IM101.88Z.00CF.B00.1708080133\<close> a text of 65 characters with a null
  character after each character, not that string.
\<close>

theorem getVersion_keeps_nulls:
  "getVersion image_scap 0xb0
     = Some (Inr (concat (map (\<lambda>c. [c, CHR 0x00]) ''   IM101.88Z.00CF.B00.1708080133'')
                  @ [CHR 0x00]))
   \<and> getVersion image_scap 0xb0 \<noteq> Some (Inr ''IM101.88Z.00CF.B00.1708080133'')"
  by (simp add: getVersion_image_scap)

text \<open>
  C2, amended: for a marker reached with no earlier match and followed by a well-formed
  65-byte record of five fields (ASCII, without dot, null or space), \<open>getVersion\<close>
  returns the record's text with the null characters kept: each character of the
  32-character text followed by a null character, and one closing null. Split at the
  dots it has five fields, and they are the original fields once the null characters
  and the padding spaces are removed.
\<close>

theorem getVersion_record:
  assumes "0 \<le> start" and "0 \<le> scan_position start k"
    and "bytes_at f (scan_position start k) 8 = IBIOSI"
    and "IBIOSI \<notin> set (map (\<lambda>j. bytes_at f (scan_position start j) 8) [0..<k])"
    and "bytes_at f (scan_position start k + 8) 0x41 = version_record flds"
    and "length flds = 5"
    and "\<forall>x\<in>set flds. \<forall>c\<in>set x.
           of_char c < (128 :: nat) \<and> c \<noteq> CHR ''.'' \<and> c \<noteq> CHR 0x00 \<and> c \<noteq> CHR '' ''"
  shows "getVersion f start
           = Some (Inr (concat (map (\<lambda>c. [c, CHR 0x00]) (version_text flds)) @ [CHR 0x00]))
     \<and> map (filter (\<lambda>c. c \<noteq> CHR 0x00 \<and> c \<noteq> CHR '' ''))
           (split_str CHR ''.''
              (concat (map (\<lambda>c. [c, CHR 0x00]) (version_text flds)) @ [CHR 0x00]))
         = flds"
proof
  from assms(7) have ascii: "\<forall>x\<in>set flds. \<forall>c\<in>set x. of_char c < (128 :: nat)"
    by blast
  show "getVersion f start
           = Some (Inr (concat (map (\<lambda>c. [c, CHR 0x00]) (version_text flds)) @ [CHR 0x00]))"
    by (rule getVersion_record_text [OF assms(1-5) ascii])
  from assms(7) have clean: "\<forall>x\<in>set flds. \<forall>c\<in>set x.
           c \<noteq> CHR ''.'' \<and> c \<noteq> CHR 0x00 \<and> c \<noteq> CHR '' ''"
    by blast
  show "map (filter (\<lambda>c. c \<noteq> CHR 0x00 \<and> c \<noteq> CHR '' ''))
           (split_str CHR ''.''
              (concat (map (\<lambda>c. [c, CHR 0x00]) (version_text flds)) @ [CHR 0x00]))
         = flds"
    by (rule version_record_fields [OF assms(6) clean])
qed

theorem getVersion_record_witness:
  "getVersion image_fd 4132
     = Some (Inr (concat (map (\<lambda>c. [c, CHR 0x00]) ''   IM101.88Z.00CF.B00.1708080133'')
                  @ [CHR 0x00]))
   \<and> map (filter (\<lambda>c. c \<noteq> CHR 0x00 \<and> c \<noteq> CHR '' ''))
        (split_str CHR ''.''
           (concat (map (\<lambda>c. [c, CHR 0x00]) ''   IM101.88Z.00CF.B00.1708080133'') @ [CHR 0x00]))
      = [''IM101'', ''88Z'', ''00CF'', ''B00'', ''1708080133'']"
proof -
  note m = image_fd_marker
  have start: "(0 :: int) \<le> 4132" "0 \<le> scan_position 4132 8"
    by (simp_all add: scan_position_def)
  have len: "length [''IM101'', ''88Z'', ''00CF'', ''B00'', ''1708080133''] = 5"
    by simp
  from getVersion_record [OF start m [THEN conjunct1] m [THEN conjunct2, THEN conjunct1]
      m [THEN conjunct2, THEN conjunct2, THEN conjunct1] len IM101_fields]
  show ?thesis
    by (simp only: version_text_IM101)
qed

subsection \<open>GUID.search\<close>

lemma search_legacy_Some:
  assumes "search_legacy f filesize position = Some y" and "0 \<le> position"
  shows "\<exists>i. hexlify (take 16 (drop i (content f))) = uuid_legacy"
proof -
  have "0 \<le> position \<longrightarrow> (\<exists>i. hexlify (take 16 (drop i (content f))) = uuid_legacy)"
  proof (rule search_legacy.raw_induct
      [where P = "\<lambda>f fs pos y. 0 \<le> pos \<longrightarrow> (\<exists>i. hexlify (take 16 (drop i (content f))) = uuid_legacy)",
        OF _ assms(1)])
    fix loop :: "binfile \<Rightarrow> int \<Rightarrow> int \<Rightarrow> (error + int) option"
      and g fs pos r
    assume IH: "\<And>g fs pos r. loop g fs pos = Some r
        \<Longrightarrow> 0 \<le> pos \<longrightarrow> (\<exists>i. hexlify (take 16 (drop i (content g))) = uuid_legacy)"
      and body: "(case read g 16 of
          (bs, f1) \<Rightarrow>
            if hexlify bs = uuid_legacy then Some (Inr pos)
            else if pos < fs - 8 then
              (case seek f1 (pos + 4) of
                 Inl e \<Rightarrow> Some (Inl e)
               | Inr f2 \<Rightarrow> loop f2 fs (pos + 4))
            else loop f1 fs pos) = Some r"
    let ?bs = "take 16 (drop (cursor g) (content g))"
    let ?f1 = "g\<lparr>cursor := cursor g + length ?bs\<rparr>"
    show "0 \<le> pos \<longrightarrow> (\<exists>i. hexlify (take 16 (drop i (content g))) = uuid_legacy)"
    proof
      assume nonneg: "0 \<le> pos"
      show "\<exists>i. hexlify (take 16 (drop i (content g))) = uuid_legacy"
      proof (cases "hexlify ?bs = uuid_legacy")
        case True
        then show ?thesis by blast
      next
        case False
        show ?thesis
        proof (cases "pos < fs - 8")
          case True
          with False body nonneg
          have "loop (?f1\<lparr>cursor := nat (pos + 4)\<rparr>) fs (pos + 4) = Some r"
            by (simp add: read_def Let_def seek_def)
          from IH [OF this] nonneg show ?thesis
            by simp
        next
          case nolt: False
          with False body
          have "loop ?f1 fs pos = Some r"
            by (simp add: read_def Let_def)
          from IH [OF this] nonneg show ?thesis
            by simp
        qed
      qed
    qed
  qed
  with assms(2) show ?thesis
    by simp
qed

lemma search_legacy_None:
  assumes "\<forall>i. hexlify (take 16 (drop i (content f))) \<noteq> uuid_legacy" and "0 \<le> position"
  shows "search_legacy f filesize position = None"
proof (cases "search_legacy f filesize position")
  case None
  then show ?thesis .
next
  case (Some y)
  from search_legacy_Some [OF this assms(2)] assms(1) show ?thesis
    by blast
qed

lemma hexdigit_0: "n < 16 \<Longrightarrow> hexdigit n = CHR ''0'' \<Longrightarrow> n = 0"
proof -
  have "list_all (\<lambda>n. hexdigit n = CHR ''0'' \<longrightarrow> n = 0) [0..<16]"
    by (simp add: upt_rec hexdigit_def)
  then show "n < 16 \<Longrightarrow> hexdigit n = CHR ''0'' \<Longrightarrow> n = 0"
    by (simp add: list_all_iff)
qed

lemma hexdigit_9: "n < 16 \<Longrightarrow> hexdigit n = CHR ''9'' \<Longrightarrow> n = 9"
proof -
  have "list_all (\<lambda>n. hexdigit n = CHR ''9'' \<longrightarrow> n = 9) [0..<16]"
    by (simp add: upt_rec hexdigit_def)
  then show "n < 16 \<Longrightarrow> hexdigit n = CHR ''9'' \<Longrightarrow> n = 9"
    by (simp add: list_all_iff)
qed

lemma hexlify_uuid_legacy_first:
  assumes "hexlify bs = uuid_legacy"
  shows "0x09 \<in> set bs"
proof (cases bs)
  case Nil
  with assms show ?thesis
    by (simp add: hexlify_def uuid_legacy_def)
next
  case (Cons b rest)
  with assms have hi: "hexdigit (unat b div 16) = CHR ''0''"
    and lo: "hexdigit (unat b mod 16) = CHR ''9''"
    by (simp_all add: hexlify_def uuid_legacy_def)
  have "unat b div 16 < 16"
    using unsigned_less [of b] by (simp add: div_less_iff_less_mult)
  from hexdigit_0 [OF this hi] have "unat b div 16 = 0" .
  moreover from hexdigit_9 [OF _ lo] have "unat b mod 16 = 9"
    by simp
  ultimately have "unat b = 9"
    using div_mult_mod_eq [of "unat b" 16] by simp
  moreover have "word_of_nat (unat b) = b"
    by simp
  ultimately have "b = 9"
    by simp
  with Cons show ?thesis
    by simp
qed

lemma no_legacy_uuid:
  assumes "0x09 \<notin> set (content f)"
  shows "\<forall>i. hexlify (take 16 (drop i (content f))) \<noteq> uuid_legacy"
proof
  fix i
  show "hexlify (take 16 (drop i (content f))) \<noteq> uuid_legacy"
  proof
    assume "hexlify (take 16 (drop i (content f))) = uuid_legacy"
    then have "0x09 \<in> set (take 16 (drop i (content f)))"
      by (rule hexlify_uuid_legacy_first)
    then have "0x09 \<in> set (content f)"
      by (meson in_set_dropD in_set_takeD)
    with assms show False
      by simp
  qed
qed

text \<open>
  C9. The claim: with no pattern A anywhere in the buffer, the MP51 scan ends once
  \<open>filesize - 8\<close> is passed and reports that no anchor was found. The test on
  \<open>filesize - 8\<close> (line 488) guards the advance only and the loop has no other exit
  than a match: with no pattern A in the buffer \<open>GUID.search\<close> never returns.
\<close>

theorem search_MP51_never_returns:
  assumes "startswith filename ''MP51''"
    and "\<forall>i. hexlify (take 16 (drop i (content f))) \<noteq> uuid_legacy"
  shows "search f filesize filename = None"
  using assms(1) search_legacy_None [OF assms(2), of 0 filesize]
  by (simp add: search_def)

theorem search_MP51_never_returns_witness:
  "startswith ''MP51.scap'' ''MP51'' \<and> shouldPerformCheck ''MP51.scap''
   \<and> search (image_scap\<lparr>cursor := 257\<rparr>) 0xb0 ''MP51.scap'' = None"
proof -
  have "0x09 \<notin> set (content (image_scap\<lparr>cursor := 257\<rparr>))"
    by (simp add: image_scap_def version_record_IM101 IBIOSI_def)
  from search_MP51_never_returns [OF _ no_legacy_uuid [OF this], of "''MP51.scap''" "0xb0"]
  show ?thesis
    by (simp add: startswith_def shouldPerformCheck_def oldStyleFWModels_def)
qed

end
